theory Spec2Isabelle
  imports Complex_Main "HOL-Library.AList" "HOL-Library.Char_ord" "HOL-Library.List_Lexorder"
    "HOL-Library.Multiset" "HOL-Library.Sublist"
begin

section \<open>The table\<close>

text \<open>
  One row of the production table, with the thirteen columns that
  \<^verbatim>\<open>load_uploaded_file\<close> requires. The \<^verbatim>\<open>date\<close> column holds what
  \<^verbatim>\<open>pd.to_datetime\<close> produces: a timestamp, counted in nanoseconds since the epoch.
  Minutes and part counts are integers, held by pandas in 64 bits: a sum of them wraps
  around (see \<open>wrap64\<close> below). The four rates are rationals (the arithmetic on them is
  exact here; binary rounding is not modelled). A label read from an empty cell
  is a missing value in pandas: \<^verbatim>\<open>downtime_reason\<close>, which may be empty, is optional.
\<close>

record row =
  date :: int
  machine :: string
  shift :: string
  planned_time_min :: int
  downtime_min :: int
  run_time_min :: int
  availability :: rat
  performance :: rat
  quality :: rat
  oee :: rat
  total_parts :: int
  good_parts :: int
  downtime_reason :: "string option"

type_synonym table = "row list"

section \<open>Sidebar filters and the filtered table\<close>

text \<open>\<^verbatim>\<open>Series.unique().tolist()\<close>: the distinct values in order of first appearance.\<close>

definition unique :: "'a list \<Rightarrow> 'a list" where
  "unique xs = foldl (\<lambda>seen x. if x \<in> set seen then seen else seen @ [x]) [] xs"





text \<open>
  A calendar date is a day number (days since the epoch). \<^verbatim>\<open>pd.Timestamp(d)\<close> of a
  calendar date is midnight of that day; \<^verbatim>\<open>st.date_input\<close> shows a timestamp as the
  calendar date it falls on.
\<close>

definition ns_per_day :: int where
  "ns_per_day = 86400000000000"

definition Timestamp :: "int \<Rightarrow> int" where
  "Timestamp d = d * ns_per_day"

definition to_date :: "int \<Rightarrow> int" where
  "to_date t = t div ns_per_day"

text \<open>
  The boolean masks of lines 159 to 164: \<^verbatim>\<open>isin\<close>, the two comparisons with a
  timestamp, the elementwise \<^verbatim>\<open>&\<close>, and the selection \<^verbatim>\<open>df[mask]\<close> of the rows
  whose mask entry is true.
\<close>

definition isin :: "'a list \<Rightarrow> 'a list \<Rightarrow> bool list" where
  "isin col vals = map (\<lambda>x. x \<in> set vals) col"

definition ge_mask :: "int list \<Rightarrow> int \<Rightarrow> bool list" where
  "ge_mask col t = map (\<lambda>x. x \<ge> t) col"

definition le_mask :: "int list \<Rightarrow> int \<Rightarrow> bool list" where
  "le_mask col t = map (\<lambda>x. x \<le> t) col"

definition mask_and :: "bool list \<Rightarrow> bool list \<Rightarrow> bool list" where
  "mask_and ms ns = map2 (\<and>) ms ns"

definition select_rows :: "'r list \<Rightarrow> bool list \<Rightarrow> 'r list" where
  "select_rows df msk = map fst (filter snd (zip df msk))"

definition filtered_df :: "table \<Rightarrow> string list \<Rightarrow> string list \<Rightarrow> int \<Rightarrow> int \<Rightarrow> table" where
  "filtered_df df selected_machines selected_shifts start_date end_date =
     select_rows df
       (mask_and
         (mask_and
           (mask_and (isin (map machine df) selected_machines)
                     (isin (map shift df) selected_shifts))
           (ge_mask (map date df) (Timestamp start_date)))
         (le_mask (map date df) (Timestamp end_date)))"

section \<open>Numbers that may be undefined\<close>

text \<open>
  The result of a pandas division or mean is a float, which may be \<^verbatim>\<open>nan\<close> or
  infinite: pandas divides by zero without raising (\<open>0 / 0\<close> is \<^verbatim>\<open>nan\<close>, a non-zero
  number over zero is infinite). A finite result is kept as the exact rational.
\<close>

datatype pfloat = Fin rat | PInf | NInf | NaN

definition fdiv :: "rat \<Rightarrow> rat \<Rightarrow> pfloat" where
  "fdiv a b = (if b = 0 then (if a = 0 then NaN else if 0 < a then PInf else NInf)
               else Fin (a / b))"

definition fscale :: "pfloat \<Rightarrow> rat \<Rightarrow> pfloat" where
  "fscale v c = (case v of
       Fin x \<Rightarrow> Fin (x * c)
     | PInf \<Rightarrow> (if 0 < c then PInf else if c < 0 then NInf else NaN)
     | NInf \<Rightarrow> (if 0 < c then NInf else if c < 0 then PInf else NaN)
     | NaN \<Rightarrow> NaN)"

text \<open>The comparison of floats: false as soon as one side is \<^verbatim>\<open>nan\<close>.\<close>

fun fle :: "pfloat \<Rightarrow> pfloat \<Rightarrow> bool" where
  "fle NaN _ = False"
| "fle _ NaN = False"
| "fle NInf _ = True"
| "fle _ PInf = True"
| "fle (Fin x) (Fin y) = (x \<le> y)"
| "fle _ _ = False"

fun nondecreasing :: "pfloat list \<Rightarrow> bool" where
  "nondecreasing (x # y # ys) = (fle x y \<and> nondecreasing (y # ys))"
| "nondecreasing _ = True"

text \<open>\<^verbatim>\<open>Series.mean()\<close>: the sum over the count, \<^verbatim>\<open>nan\<close> on an empty series.\<close>

definition mean :: "rat list \<Rightarrow> pfloat" where
  "mean xs = fdiv (sum_list xs) (of_nat (length xs))"

section \<open>Sums of 64-bit integers\<close>

text \<open>
  pandas adds the cells of an integer column in 64-bit signed arithmetic, without a
  check: a sum outside the range from \<open>- 2 ^ 63\<close> to \<open>2 ^ 63 - 1\<close> wraps around.
\<close>

definition wrap64 :: "int \<Rightarrow> int" where
  "wrap64 x = (x + 2 ^ 63) mod 2 ^ 64 - 2 ^ 63"

definition sum64 :: "int list \<Rightarrow> int" where
  "sum64 xs = foldl (\<lambda>acc x. wrap64 (acc + x)) 0 xs"

section \<open>Scalar indicators\<close>

text \<open>Lines 171 to 176.\<close>

record kpis =
  avg_oee :: pfloat
  avg_availability :: pfloat
  avg_performance :: pfloat
  avg_quality :: pfloat
  total_good_parts :: int
  total_downtime :: int

definition scalar_kpis :: "table \<Rightarrow> kpis" where
  "scalar_kpis filtered =
     \<lparr>avg_oee = mean (map oee filtered),
      avg_availability = mean (map availability filtered),
      avg_performance = mean (map performance filtered),
      avg_quality = mean (map quality filtered),
      total_good_parts = sum64 (map good_parts filtered),
      total_downtime = sum64 (map downtime_min filtered)\<rparr>"

section \<open>Grouping\<close>

text \<open>
  \<^verbatim>\<open>df.groupby(key)[col]\<close>: the rows are scanned in order and the value of each goes to
  the group of its key; a row whose key is missing belongs to no group (pandas drops
  missing keys); the groups come out in ascending order of their keys (pandas sorts
  the group keys).
\<close>

fun group_add :: "'k \<Rightarrow> 'v \<Rightarrow> ('k \<times> 'v list) list \<Rightarrow> ('k \<times> 'v list) list" where
  "group_add k v [] = [(k, [v])]"
| "group_add k v ((k', vs) # gs) =
     (if k = k' then (k', vs @ [v]) # gs else (k', vs) # group_add k v gs)"

definition collect_groups :: "('r \<Rightarrow> 'k option) \<Rightarrow> ('r \<Rightarrow> 'v) \<Rightarrow> 'r list \<Rightarrow> ('k \<times> 'v list) list" where
  "collect_groups key val df =
     foldl (\<lambda>gs r. case key r of None \<Rightarrow> gs | Some k \<Rightarrow> group_add k (val r) gs) [] df"

definition groupby :: "('r \<Rightarrow> 'k::linorder option) \<Rightarrow> ('r \<Rightarrow> 'v) \<Rightarrow> 'r list \<Rightarrow> ('k \<times> 'v list) list" where
  "groupby key val df = sort_key fst (collect_groups key val df)"

section \<open>Downtime by reason\<close>

text \<open>
  Lines 258 and 259: the summed downtime of each reason, then
  \<^verbatim>\<open>sort_values(ascending=False)\<close>. The outcome of that call is in descending order of
  the sums; the order it gives to lines with equal sums depends on the sorting kind
  (the default kind of pandas is not a stable one) and is not fixed by the script. It
  is a parameter here: \<open>ties\<close> gives, for the column of values and a position in it,
  the priority of that position among the lines with the same value. Every way of
  ordering equal values is the outcome of some \<open>ties\<close>, as is proved below.
\<close>

definition pareto_sums :: "table \<Rightarrow> (string \<times> int) list" where
  "pareto_sums filtered =
     map (\<lambda>(k, vs). (k, sum64 vs)) (groupby downtime_reason downtime_min filtered)"

definition sort_values_desc ::
  "(int list \<Rightarrow> nat \<Rightarrow> nat) \<Rightarrow> ('k \<times> int) list \<Rightarrow> ('k \<times> int) list" where
  "sort_values_desc ties xs =
     map snd (rev (sort_key (\<lambda>(i, g). snd g)
                     (sort_key (\<lambda>(i, g). ties (map snd xs) i) (enumerate 0 xs))))"

definition pareto :: "(int list \<Rightarrow> nat \<Rightarrow> nat) \<Rightarrow> table \<Rightarrow> (string \<times> int) list" where
  "pareto ties filtered = sort_values_desc ties (pareto_sums filtered)"

text \<open>Line 262: the running sum over the total, times 100.\<close>

fun cumsum_from :: "int \<Rightarrow> int list \<Rightarrow> int list" where
  "cumsum_from acc [] = []"
| "cumsum_from acc (x # xs) = wrap64 (acc + x) # cumsum_from (wrap64 (acc + x)) xs"

definition cumsum :: "int list \<Rightarrow> int list" where
  "cumsum xs = cumsum_from 0 xs"

definition cumulative_pct :: "(string \<times> int) list \<Rightarrow> pfloat list" where
  "cumulative_pct p =
     map (\<lambda>c. fscale (fdiv (of_int c) (of_int (sum64 (map snd p)))) 100)
         (cumsum (map snd p))"

section \<open>Comparison of machines\<close>

text \<open>Line 302: the mean of the four rates for each machine.\<close>

definition machine_oee :: "table \<Rightarrow> (string \<times> pfloat \<times> pfloat \<times> pfloat \<times> pfloat) list" where
  "machine_oee filtered =
     map (\<lambda>(m, rs). (m, mean (map oee rs), mean (map availability rs),
                        mean (map performance rs), mean (map quality rs)))
         (groupby (\<lambda>r. Some (machine r)) (\<lambda>r. r) filtered)"

section \<open>Loading an uploaded file\<close>

text \<open>
  A data frame as the loader sees it: named columns in order, each a list of cells.
  What a cell holds is left open. Reading a file and converting a column to dates are
  pandas' work: an uploaded file is given with what \<^verbatim>\<open>pd.read_csv\<close> and
  \<^verbatim>\<open>pd.read_excel\<close> make of it, and \<^verbatim>\<open>pd.to_datetime\<close> is a parameter. Each of
  them may raise.
\<close>

datatype exn = FileNotFoundError | ReadError | KeyError string | DateParseError

type_synonym 'c frame = "(string \<times> 'c list) list"

record 'c uploaded_file =
  name :: string
  as_csv :: "exn + 'c frame"
  as_excel :: "exn + 'c frame"

definition columns :: "'c frame \<Rightarrow> string list" where
  "columns df = map fst df"

definition getitem :: "'c frame \<Rightarrow> string \<Rightarrow> exn + 'c list" where
  "getitem df c = (case map_of df c of None \<Rightarrow> Inl (KeyError c) | Some col \<Rightarrow> Inr col)"

definition setitem :: "'c frame \<Rightarrow> string \<Rightarrow> 'c list \<Rightarrow> 'c frame" where
  "setitem df c col = AList.update c col df"

definition endswith :: "string \<Rightarrow> string \<Rightarrow> bool" where
  "endswith s suf = (take (length suf) (rev s) = rev suf)"

fun join :: "string \<Rightarrow> string list \<Rightarrow> string" where
  "join sep [] = []"
| "join sep [x] = x"
| "join sep (x # y # ys) = x @ sep @ join sep (y # ys)"

text \<open>The symbols that open the messages, as their UTF-8 bytes.\<close>

definition cross_mark :: string where
  "cross_mark = [CHR 0xE2, CHR 0x9D, CHR 0x8C]"

definition check_mark :: string where
  "check_mark = [CHR 0xE2, CHR 0x9C, CHR 0x85]"

definition warning_sign :: string where
  "warning_sign = [CHR 0xE2, CHR 0x9A, CHR 0xA0, CHR 0xEF, CHR 0xB8, CHR 0x8F]"

definition folder_sign :: string where
  "folder_sign = [CHR 0xF0, CHR 0x9F, CHR 0x93, CHR 0x82]"

definition required_columns :: "string list" where
  "required_columns =
     [''date'', ''machine'', ''shift'',
      ''planned_time_min'', ''downtime_min'', ''run_time_min'',
      ''availability'', ''performance'', ''quality'',
      ''oee'', ''total_parts'', ''good_parts'', ''downtime_reason'']"

definition missing_columns :: "'c frame \<Rightarrow> string list" where
  "missing_columns df = filter (\<lambda>col. col \<notin> set (columns df)) required_columns"

text \<open>Lines 30 to 35: the reader chosen by the file name, or none.\<close>

definition read_upload :: "'c uploaded_file \<Rightarrow> (exn + 'c frame) option" where
  "read_upload f =
     (if endswith (name f) ''.csv'' then Some (as_csv f)
      else if endswith (name f) ''.xlsx'' \<or> endswith (name f) ''.xls'' then Some (as_excel f)
      else None)"

definition load_uploaded_file ::
  "('c list \<Rightarrow> exn + 'c list) \<Rightarrow> 'c uploaded_file \<Rightarrow> exn + ('c frame option \<times> string)" where
  "load_uploaded_file to_datetime f =
     (case read_upload f of
        None \<Rightarrow> Inr (None, cross_mark @ '' Unsupported file type. Please upload CSV or Excel.'')
      | Some (Inl e) \<Rightarrow> Inl e
      | Some (Inr df) \<Rightarrow>
          (let missing = missing_columns df in
           if missing \<noteq> [] then Inr (None, cross_mark @ '' Missing columns: '' @ join '', '' missing)
           else (case getitem df ''date'' of
                   Inl e \<Rightarrow> Inl e
                 | Inr col \<Rightarrow>
                     (case to_datetime col of
                        Inl e \<Rightarrow> Inl e
                      | Inr dates \<Rightarrow>
                          Inr (Some (setitem df ''date'' dates),
                               check_mark @ '' File loaded successfully!'')))))"

section \<open>The data source of a run\<close>

text \<open>
  Lines 19 to 26 and 92 to 103. Streamlit runs the script from the top on every
  interaction; a run has the uploaded file, if any, and the default file on disk, and
  nothing from earlier runs. \<^verbatim>\<open>st.stop()\<close> ends the run after its message: nothing
  below it is executed. An exception that nothing catches ends the run as well.
\<close>

datatype 'c run = Stopped string | Crashed exn | Loaded "'c frame" string

definition load_default_data ::
  "('c list \<Rightarrow> exn + 'c list) \<Rightarrow> exn + 'c frame \<Rightarrow> 'c run" where
  "load_default_data to_datetime default_csv =
     (case default_csv of
        Inl FileNotFoundError \<Rightarrow>
          Stopped (warning_sign @ '' Default dataset not found. Please upload your OEE data file using the uploader in the sidebar.'')
      | Inl e \<Rightarrow> Crashed e
      | Inr df \<Rightarrow>
          (case getitem df ''date'' of
             Inl e \<Rightarrow> Crashed e
           | Inr col \<Rightarrow>
               (case to_datetime col of
                  Inl FileNotFoundError \<Rightarrow>
                    Stopped (warning_sign @ '' Default dataset not found. Please upload your OEE data file using the uploader in the sidebar.'')
                | Inl e \<Rightarrow> Crashed e
                | Inr dates \<Rightarrow>
                    Loaded (setitem df ''date'' dates)
                           (folder_sign @ '' Default Dataset (oee_data.csv)''))))"

definition data_source ::
  "('c list \<Rightarrow> exn + 'c list) \<Rightarrow> 'c uploaded_file option \<Rightarrow> exn + 'c frame \<Rightarrow> 'c run" where
  "data_source to_datetime uploaded default_csv =
     (case uploaded of
        Some f \<Rightarrow>
          (case load_uploaded_file to_datetime f of
             Inl e \<Rightarrow> Crashed e
           | Inr (None, message) \<Rightarrow> Stopped message
           | Inr (Some df, message) \<Rightarrow> Loaded df (folder_sign @ '' '' @ name f))
      | None \<Rightarrow> load_default_data to_datetime default_csv)"

text \<open>The table a run works on, if it gets that far.\<close>

fun active_table :: "'c run \<Rightarrow> 'c frame option" where
  "active_table (Loaded df src) = Some df"
| "active_table _ = None"

section \<open>The keys of the groups\<close>

text \<open>The labels that occur as a key, each once, in ascending order.\<close>

definition group_keys :: "('r \<Rightarrow> 'k::linorder option) \<Rightarrow> 'r list \<Rightarrow> 'k list" where
  "group_keys key df = sort (unique (List.map_filter key df))"


section \<open>Example tables\<close>

definition sample_row :: row where
  "sample_row = \<lparr>date = 0, machine = ''M1'', shift = ''Day'', planned_time_min = 480,
     downtime_min = 0, run_time_min = 480, availability = 1, performance = 1, quality = 1,
     oee = 1, total_parts = 100, good_parts = 100, downtime_reason = None\<rparr>"

definition two_days :: table where
  "two_days = [sample_row\<lparr>date := Timestamp 3, machine := ''M2''\<rparr>,
               sample_row\<lparr>date := Timestamp 1, shift := ''Night''\<rparr>,
               sample_row\<lparr>date := Timestamp 2\<rparr>]"

definition scenario_1 :: table where
  "scenario_1 =
     [sample_row\<lparr>date := Timestamp 1, machine := ''M2'', oee := 0.6\<rparr>,
      sample_row\<lparr>date := Timestamp 1, machine := ''M1'', oee := 0.9\<rparr>,
      sample_row\<lparr>date := Timestamp 2, machine := ''M1'', oee := 0.8\<rparr>,
      sample_row\<lparr>date := Timestamp 2, machine := ''M2'', oee := 0.5\<rparr>,
      sample_row\<lparr>date := Timestamp 3, machine := ''M1'', oee := 0.7\<rparr>,
      sample_row\<lparr>date := Timestamp 3, machine := ''M2'', oee := 0.4\<rparr>]"

definition scenario_2 :: table where
  "scenario_2 =
     [sample_row\<lparr>downtime_reason := Some ''B'', downtime_min := 30\<rparr>,
      sample_row\<lparr>downtime_reason := Some ''A'', downtime_min := 20\<rparr>,
      sample_row,
      sample_row\<lparr>downtime_reason := Some ''C'', downtime_min := 20\<rparr>,
      sample_row\<lparr>downtime_reason := Some ''A'', downtime_min := 30\<rparr>]"

definition tied_reasons :: table where
  "tied_reasons =
     [sample_row\<lparr>downtime_reason := Some ''B'', downtime_min := 10\<rparr>,
      sample_row\<lparr>downtime_reason := Some ''A'', downtime_min := 10\<rparr>,
      sample_row\<lparr>downtime_reason := Some ''C'', downtime_min := 10\<rparr>]"

definition idle_table :: table where
  "idle_table =
     [sample_row\<lparr>downtime_reason := Some ''A''\<rparr>,
      sample_row\<lparr>downtime_reason := Some ''B''\<rparr>]"

text \<open>
  A row in the afternoon of day 2; a table whose last row is at noon of day 2; a table
  with downtime in a row that has no reason.
\<close>

definition afternoon :: table where
  "afternoon = [sample_row\<lparr>date := 2 * 86400000000000 + 52200000000000\<rparr>]"


definition unlabelled :: table where
  "unlabelled =
     [sample_row\<lparr>downtime_min := 15\<rparr>,
      sample_row\<lparr>downtime_reason := Some ''A'', downtime_min := 5\<rparr>]"

text \<open>
  Two ways of ordering equal sums: as the lines come from the grouping, and the
  opposite way.
\<close>

definition ties_in_order :: "int list \<Rightarrow> nat \<Rightarrow> nat" where
  "ties_in_order vs i = length vs - i"

definition ties_reversed :: "int list \<Rightarrow> nat \<Rightarrow> nat" where
  "ties_reversed vs i = i"

section \<open>Example files\<close>

text \<open>
  Frames of one row over given columns, files that hold them, a date conversion that
  accepts every column and one that raises on every column.
\<close>

definition one_row :: "string list \<Rightarrow> string frame" where
  "one_row cols = map (\<lambda>c. (c, [''1''])) cols"

definition complete_frame :: "string frame" where
  "complete_frame = one_row required_columns"

definition no_quality :: "string frame" where
  "no_quality = one_row (filter (\<lambda>c. c \<noteq> ''quality'') required_columns @ [''operator''])"

definition no_date :: "string frame" where
  "no_date = one_row (filter (\<lambda>c. c \<noteq> ''date'' \<and> c \<noteq> ''oee'') required_columns)"

definition keep_dates :: "string list \<Rightarrow> exn + string list" where
  "keep_dates col = Inr col"

definition never_a_date :: "string list \<Rightarrow> exn + string list" where
  "never_a_date col = Inl DateParseError"

definition no_quality_csv :: "string uploaded_file" where
  "no_quality_csv = \<lparr>name = ''line.csv'', as_csv = Inr no_quality, as_excel = Inl ReadError\<rparr>"

definition no_date_xlsx :: "string uploaded_file" where
  "no_date_xlsx = \<lparr>name = ''week.xlsx'', as_csv = Inl ReadError, as_excel = Inr no_date\<rparr>"

definition complete_csv :: "string uploaded_file" where
  "complete_csv = \<lparr>name = ''shift_log.csv'', as_csv = Inr complete_frame, as_excel = Inl ReadError\<rparr>"

definition notes_txt :: "string uploaded_file" where
  "notes_txt = \<lparr>name = ''notes.txt'', as_csv = Inr complete_frame, as_excel = Inl ReadError\<rparr>"

section \<open>Properties of the filter\<close>

lemma select_rows_map:
  "select_rows df (map p df) = filter p df"
  by (induction df) (simp_all add: select_rows_def)

lemma mask_and_map:
  "mask_and (map p df) (map q df) = map (\<lambda>r. p r \<and> q r) df"
  by (induction df) (simp_all add: mask_and_def)

lemma filtered_df_filter:
  "filtered_df df ms ss a b =
     filter (\<lambda>r. machine r \<in> set ms \<and> shift r \<in> set ss
                 \<and> Timestamp a \<le> date r \<and> date r \<le> Timestamp b) df"
proof -
  have "filtered_df df ms ss a b =
          select_rows df (map (\<lambda>r. ((machine r \<in> set ms \<and> shift r \<in> set ss)
                 \<and> Timestamp a \<le> date r) \<and> date r \<le> Timestamp b) df)"
    by (simp add: filtered_df_def isin_def ge_mask_def le_mask_def map_map comp_def mask_and_map)
  also have "\<dots> = filter (\<lambda>r. ((machine r \<in> set ms \<and> shift r \<in> set ss)
                 \<and> Timestamp a \<le> date r) \<and> date r \<le> Timestamp b) df"
    by (rule select_rows_map)
  finally show ?thesis by simp
qed

lemma times_le_iff_le_div:
  fixes a t n :: int
  assumes "0 < n"
  shows "(a * n \<le> t) = (a \<le> t div n)"
proof
  assume "a * n \<le> t"
  then have "(a * n) div n \<le> t div n" using assms by (intro zdiv_mono1)
  then show "a \<le> t div n" using assms by simp
next
  assume "a \<le> t div n"
  then have "a * n \<le> (t div n) * n" using assms by (simp add: mult_right_mono)
  also have "\<dots> \<le> t"
    using div_mult_mod_eq [of t n] pos_mod_sign [OF assms, of t] by linarith
  finally show "a * n \<le> t" .
qed

lemma le_times_iff_div_less:
  fixes b t n :: int
  assumes "0 < n"
  shows "(t \<le> b * n) = (t div n < b \<or> t = b * n)"
  using times_le_iff_le_div [OF assms, of b t] by auto

lemma le_times_iff_div_le:
  fixes b t n :: int
  assumes "0 < n" and "t mod n = 0"
  shows "(t \<le> b * n) = (t div n \<le> b)"
proof -
  have t: "t = (t div n) * n" using assms(2) div_mult_mod_eq [of t n] by simp
  have "(t = b * n) = (t div n = b)" using assms(1) t by (metis mult_cancel_right less_irrefl)
  then show ?thesis using le_times_iff_div_less [OF assms(1), of t b] by auto
qed

text \<open>
  C1, as the code has it. For every table and every selection (machines, shifts, first
  and last day), the filtered table is exactly the rows, in their original order, whose
  machine is selected, whose shift is selected and whose date lies between midnight of
  the first day and midnight of the last day, both included: the rows from the first
  day on, up to the last day, of which only a row at midnight is kept. It is a
  subsequence of the table, and an empty machine selection or an empty shift selection
  gives the empty table. When every date of the table is a calendar date (midnight),
  the rows kept are those of the days from the first to the last, and a range of a
  single day keeps every selected row of that day.
\<close>

theorem filtered_df_spec:
  "filtered_df df ms ss a b =
     filter (\<lambda>r. machine r \<in> set ms \<and> shift r \<in> set ss
                 \<and> a * 86400000000000 \<le> date r \<and> date r \<le> b * 86400000000000) df
   \<and> filtered_df df ms ss a b =
     filter (\<lambda>r. machine r \<in> set ms \<and> shift r \<in> set ss
                 \<and> a \<le> date r div 86400000000000
                 \<and> (date r div 86400000000000 < b \<or> date r = b * 86400000000000)) df
   \<and> subseq (filtered_df df ms ss a b) df
   \<and> filtered_df df [] ss a b = []
   \<and> filtered_df df ms [] a b = []
   \<and> ((\<forall>r\<in>set df. date r mod 86400000000000 = 0) \<longrightarrow>
        filtered_df df ms ss a b =
          filter (\<lambda>r. machine r \<in> set ms \<and> shift r \<in> set ss
                      \<and> a \<le> date r div 86400000000000 \<and> date r div 86400000000000 \<le> b) df
        \<and> filtered_df df ms ss a a =
          filter (\<lambda>r. machine r \<in> set ms \<and> shift r \<in> set ss
                      \<and> date r div 86400000000000 = a) df)"
proof -
  have n: "(0::int) < 86400000000000" by simp
  have exact: "filtered_df df ms ss a b =
     filter (\<lambda>r. machine r \<in> set ms \<and> shift r \<in> set ss
                 \<and> a * 86400000000000 \<le> date r \<and> date r \<le> b * 86400000000000) df" for a b
    by (simp add: filtered_df_filter Timestamp_def ns_per_day_def)
  have days: "filtered_df df ms ss a b =
     filter (\<lambda>r. machine r \<in> set ms \<and> shift r \<in> set ss
                 \<and> a \<le> date r div 86400000000000
                 \<and> (date r div 86400000000000 < b \<or> date r = b * 86400000000000)) df"
    unfolding exact
    by (simp only: times_le_iff_le_div [OF n] le_times_iff_div_less [OF n])
  have calendar: "filtered_df df ms ss a b =
          filter (\<lambda>r. machine r \<in> set ms \<and> shift r \<in> set ss
                      \<and> a \<le> date r div 86400000000000 \<and> date r div 86400000000000 \<le> b) df"
    if "\<forall>r\<in>set df. date r mod 86400000000000 = 0" for a b
    unfolding exact
    by (rule filter_cong [OF refl])
       (use that in \<open>simp add: times_le_iff_le_div [OF n] le_times_iff_div_le [OF n]\<close>)
  have single: "filtered_df df ms ss a a =
          filter (\<lambda>r. machine r \<in> set ms \<and> shift r \<in> set ss
                      \<and> date r div 86400000000000 = a) df"
    if c: "\<forall>r\<in>set df. date r mod 86400000000000 = 0"
    unfolding calendar [OF c] by (rule filter_cong [OF refl]) auto
  have empty_m: "filtered_df df [] ss a b = []" and empty_s: "filtered_df df ms [] a b = []"
    by (simp_all add: filtered_df_filter)
  have sub: "subseq (filtered_df df ms ss a b) df"
    by (simp add: filtered_df_filter)
  show ?thesis
    using exact [of a b] days sub empty_m empty_s calendar [of a b] single by blast
qed

theorem filtered_df_spec_witness:
  "filtered_df two_days [''M1''] [''Day'', ''Night''] 2 2 =
     [sample_row\<lparr>date := Timestamp 2\<rparr>]
   \<and> filtered_df two_days [''M1'', ''M2''] [''Day''] 2 3 =
     [sample_row\<lparr>date := Timestamp 3, machine := ''M2''\<rparr>, sample_row\<lparr>date := Timestamp 2\<rparr>]"
proof -
  have c: "\<forall>r\<in>set two_days. date r mod 86400000000000 = 0"
    by (simp add: two_days_def sample_row_def Timestamp_def ns_per_day_def)
  have "filtered_df two_days [''M1''] [''Day'', ''Night''] 2 2 =
          filter (\<lambda>r. machine r \<in> set [''M1''] \<and> shift r \<in> set [''Day'', ''Night'']
                      \<and> date r div 86400000000000 = 2) two_days"
    and "filtered_df two_days [''M1'', ''M2''] [''Day''] 2 3 =
          filter (\<lambda>r. machine r \<in> set [''M1'', ''M2''] \<and> shift r \<in> set [''Day'']
                      \<and> 2 \<le> date r div 86400000000000 \<and> date r div 86400000000000 \<le> 3) two_days"
    using filtered_df_spec [of two_days "[''M1'']" "[''Day'', ''Night'']" 2 2]
      filtered_df_spec [of two_days "[''M1'', ''M2'']" "[''Day'']" 2 3] c
    by blast+
  then show ?thesis
    by (simp add: two_days_def sample_row_def Timestamp_def ns_per_day_def)
qed

text \<open>
  A row at 14:30 of day 2, with a selected machine and a selected shift: the range of
  the single day 2 leaves it out.
\<close>

theorem single_day_counterexample:
  "map machine afternoon = [''M1''] \<and> map shift afternoon = [''Day'']
   \<and> map to_date (map date afternoon) = [2]
   \<and> filtered_df afternoon [''M1''] [''Day''] 2 2 = []"
  by (simp add: afternoon_def sample_row_def to_date_def filtered_df_filter Timestamp_def
        ns_per_day_def)

section \<open>The full selection\<close>

lemma set_unique_foldl:
  "set (foldl (\<lambda>seen x. if x \<in> set seen then seen else seen @ [x]) acc xs) = set acc \<union> set xs"
  by (induction xs arbitrary: acc) auto

lemma set_unique: "set (unique xs) = set xs"
  by (simp add: unique_def set_unique_foldl)











section \<open>Indicators of an empty selection\<close>

text \<open>
  C7, as the code has it. For every selection that leaves no row, the scalar indicators
  are computed without an error, the four means are \<^verbatim>\<open>nan\<close> and the two sums are
  zero: no other value stands in for a mean over no rows.
\<close>

theorem empty_selection_kpis:
  assumes "filtered_df df ms ss a b = []"
  shows "scalar_kpis (filtered_df df ms ss a b) =
           \<lparr>avg_oee = NaN, avg_availability = NaN, avg_performance = NaN, avg_quality = NaN,
            total_good_parts = 0, total_downtime = 0\<rparr>"
  using assms by (simp add: scalar_kpis_def mean_def fdiv_def sum64_def)

theorem empty_selection_kpis_witness:
  "filtered_df two_days [] [''Day'', ''Night''] 1 3 = []
   \<and> avg_quality (scalar_kpis (filtered_df two_days [] [''Day'', ''Night''] 1 3)) = NaN
   \<and> total_downtime (scalar_kpis (filtered_df two_days [] [''Day'', ''Night''] 1 3)) = 0"
proof -
  have e: "filtered_df two_days [] [''Day'', ''Night''] 1 3 = []"
    by (simp add: filtered_df_filter)
  show ?thesis
    using empty_selection_kpis [OF e] e by simp
qed

text \<open>
  A range of days after every date of the table leaves no row, and the mean
  \<^verbatim>\<open>oee\<close> is then \<^verbatim>\<open>nan\<close>, not a value chosen for the case.
\<close>

theorem empty_selection_kpis_counterexample:
  "filtered_df two_days [''M2'', ''M1''] [''Day'', ''Night''] 4 5 = []
   \<and> avg_oee (scalar_kpis (filtered_df two_days [''M2'', ''M1''] [''Day'', ''Night''] 4 5)) = NaN"
proof -
  have e: "filtered_df two_days [''M2'', ''M1''] [''Day'', ''Night''] 4 5 = []"
    by (simp add: filtered_df_filter two_days_def sample_row_def Timestamp_def ns_per_day_def)
  show ?thesis
    unfolding e by (simp add: scalar_kpis_def mean_def fdiv_def sum64_def)
qed

section \<open>Properties of the loader\<close>

lemma set_missing_columns:
  "set (missing_columns df) = set required_columns - set (columns df)"
  by (auto simp: missing_columns_def)

lemma missing_columns_Nil:
  "(missing_columns df = []) = (set required_columns \<subseteq> set (columns df))"
  by (auto simp: missing_columns_def filter_empty_conv)

lemma load_missing:
  "read_upload f = Some (Inr df) \<Longrightarrow> missing_columns df \<noteq> [] \<Longrightarrow>
   load_uploaded_file td f =
     Inr (None, cross_mark @ '' Missing columns: '' @ join '', '' (missing_columns df))"
  by (simp add: load_uploaded_file_def Let_def)

lemma load_complete:
  "read_upload f = Some (Inr df) \<Longrightarrow> missing_columns df = [] \<Longrightarrow>
   load_uploaded_file td f \<noteq> Inr (None, msg)"
  by (simp add: load_uploaded_file_def Let_def split: sum.splits)

lemma load_unsupported:
  "read_upload f = None \<Longrightarrow>
   load_uploaded_file td f =
     Inr (None, cross_mark @ '' Unsupported file type. Please upload CSV or Excel.'')"
  by (simp add: load_uploaded_file_def)

lemma load_raises:
  "read_upload f = Some (Inr df) \<Longrightarrow> missing_columns df = [] \<Longrightarrow>
   getitem df ''date'' = Inr col \<Longrightarrow> td col = Inl e \<Longrightarrow>
   load_uploaded_file td f = Inl e"
  by (simp add: load_uploaded_file_def Let_def)

lemma load_ok:
  "read_upload f = Some (Inr df) \<Longrightarrow> missing_columns df = [] \<Longrightarrow>
   getitem df ''date'' = Inr col \<Longrightarrow> td col = Inr dates \<Longrightarrow>
   load_uploaded_file td f =
     Inr (Some (setitem df ''date'' dates), check_mark @ '' File loaded successfully!'')"
  by (simp add: load_uploaded_file_def Let_def)

text \<open>
  C3. For every frame read from an uploaded file, the missing columns are exactly the
  required columns that the frame does not have, and there is none exactly when all
  thirteen required columns are present, whatever other columns the frame has. When
  some are missing the loader rejects the file with the message that lists them, and
  when none is missing it rejects nothing on account of columns.
\<close>

theorem missing_columns_spec:
  "set (missing_columns df) = set required_columns - set (columns df)
   \<and> (missing_columns df = []) = (set required_columns \<subseteq> set (columns df))
   \<and> length required_columns = 13 \<and> distinct required_columns
   \<and> (read_upload f = Some (Inr df) \<longrightarrow>
        (missing_columns df \<noteq> [] \<longrightarrow>
           load_uploaded_file td f =
             Inr (None, cross_mark @ '' Missing columns: '' @ join '', '' (missing_columns df)))
        \<and> (missing_columns df = [] \<longrightarrow> (\<forall>msg. load_uploaded_file td f \<noteq> Inr (None, msg))))"
proof -
  have "length required_columns = 13" "distinct required_columns"
    by (simp_all add: required_columns_def)
  then show ?thesis
    using set_missing_columns [of df] missing_columns_Nil [of df]
      load_missing [of f df td] load_complete [of f df td]
    by blast
qed

theorem missing_columns_spec_witness:
  "read_upload no_quality_csv = Some (Inr no_quality)
   \<and> missing_columns no_quality = [''quality'']
   \<and> ''operator'' \<in> set (columns no_quality)
   \<and> load_uploaded_file keep_dates no_quality_csv =
        Inr (None, cross_mark @ '' Missing columns: quality'')
   \<and> read_upload complete_csv = Some (Inr complete_frame)
   \<and> missing_columns complete_frame = []
   \<and> load_uploaded_file keep_dates complete_csv
        = Inr (Some complete_frame, check_mark @ '' File loaded successfully!'')
   \<and> load_uploaded_file keep_dates complete_csv
        \<noteq> Inr (None, cross_mark @ '' Missing columns: '')"
proof -
  have a: "read_upload no_quality_csv = Some (Inr no_quality)"
    by (simp add: read_upload_def no_quality_csv_def endswith_def)
  have b: "missing_columns no_quality = [''quality'']"
    by (simp add: missing_columns_def no_quality_def one_row_def required_columns_def columns_def)
  have c: "''operator'' \<in> set (columns no_quality)"
    by (simp add: no_quality_def one_row_def required_columns_def columns_def)
  have d: "missing_columns complete_frame = []"
    by (simp add: missing_columns_def complete_frame_def one_row_def required_columns_def columns_def)
  have r: "read_upload complete_csv = Some (Inr complete_frame)"
    by (simp add: read_upload_def complete_csv_def endswith_def)
  have e: "load_uploaded_file keep_dates complete_csv
        = Inr (Some complete_frame, check_mark @ '' File loaded successfully!'')"
  proof -
    have g: "getitem complete_frame ''date'' = Inr [''1'']"
      by (simp add: getitem_def complete_frame_def one_row_def required_columns_def)
    have k: "keep_dates [''1''] = Inr [''1'']" by (simp add: keep_dates_def)
    have s: "setitem complete_frame ''date'' [''1''] = complete_frame"
      by (simp add: setitem_def complete_frame_def one_row_def required_columns_def)
    show ?thesis using load_ok [where td = keep_dates, OF r d g k] s by simp
  qed
  show ?thesis
    using missing_columns_spec [of no_quality no_quality_csv keep_dates]
      missing_columns_spec [of complete_frame complete_csv keep_dates] a b c d r e
    by simp
qed

lemma hd_missing_date:
  "''date'' \<notin> set (columns df) \<Longrightarrow> hd (missing_columns df) = ''date''"
  by (simp add: missing_columns_def required_columns_def)

text \<open>
  C10. For every uploaded file with a recognised extension that pandas reads into a
  frame: when the frame has no \<^verbatim>\<open>date\<close> column, the loader answers with the
  missing-columns message, which lists \<^verbatim>\<open>date\<close> first, and the answer is the same
  for every date conversion, also one that would raise, since the conversion is not
  reached; and whenever the loader raises, no required column is missing.
\<close>

theorem missing_date_reported:
  assumes "read_upload f = Some (Inr df)"
  shows "(''date'' \<notin> set (columns df) \<longrightarrow>
            load_uploaded_file to_datetime f =
              Inr (None, cross_mark @ '' Missing columns: '' @ join '', '' (missing_columns df))
            \<and> hd (missing_columns df) = ''date''
            \<and> load_uploaded_file to_datetime' f = load_uploaded_file to_datetime f)
         \<and> (load_uploaded_file to_datetime f = Inl e \<longrightarrow> missing_columns df = [])"
proof -
  have first: "load_uploaded_file to_datetime f =
              Inr (None, cross_mark @ '' Missing columns: '' @ join '', '' (missing_columns df))
            \<and> hd (missing_columns df) = ''date''
            \<and> load_uploaded_file to_datetime' f = load_uploaded_file to_datetime f"
    if nd: "''date'' \<notin> set (columns df)"
  proof -
    have "''date'' \<in> set (missing_columns df)"
      using nd by (simp add: set_missing_columns required_columns_def)
    then have ne: "missing_columns df \<noteq> []" by auto
    show ?thesis
      using load_missing [OF assms ne] hd_missing_date [OF nd] by simp
  qed
  have second: "missing_columns df = []" if "load_uploaded_file to_datetime f = Inl e"
    using that load_missing [OF assms, of to_datetime] by (cases "missing_columns df = []") auto
  show ?thesis using first second by blast
qed

theorem missing_date_reported_witness:
  "read_upload no_date_xlsx = Some (Inr no_date)
   \<and> load_uploaded_file never_a_date no_date_xlsx =
        Inr (None, cross_mark @ '' Missing columns: date, oee'')
   \<and> load_uploaded_file keep_dates no_date_xlsx = load_uploaded_file never_a_date no_date_xlsx
   \<and> read_upload complete_csv = Some (Inr complete_frame)
   \<and> load_uploaded_file never_a_date complete_csv = Inl DateParseError
   \<and> missing_columns complete_frame = []"
proof -
  have r: "read_upload complete_csv = Some (Inr complete_frame)"
    by (simp add: read_upload_def complete_csv_def endswith_def)
  have d: "missing_columns complete_frame = []"
    by (simp add: missing_columns_def complete_frame_def one_row_def required_columns_def columns_def)
  have g: "getitem complete_frame ''date'' = Inr [''1'']"
    by (simp add: getitem_def complete_frame_def one_row_def required_columns_def)
  have n: "never_a_date [''1''] = Inl DateParseError" by (simp add: never_a_date_def)
  have x: "load_uploaded_file never_a_date complete_csv = Inl DateParseError"
    using load_raises [where td = never_a_date, OF r d g n] .
  have a: "read_upload no_date_xlsx = Some (Inr no_date)"
    by (simp add: read_upload_def no_date_xlsx_def endswith_def)
  have b: "''date'' \<notin> set (columns no_date)"
    by (simp add: no_date_def one_row_def required_columns_def columns_def)
  have c: "missing_columns no_date = [''date'', ''oee'']"
    by (simp add: missing_columns_def no_date_def one_row_def required_columns_def columns_def)
  show ?thesis
    using missing_date_reported [OF a, of never_a_date keep_dates]
      missing_date_reported [where to_datetime = never_a_date and e = DateParseError, OF r]
      a b c r x d
    by simp
qed

section \<open>Properties of a run\<close>

lemma data_source_rejected:
  "load_uploaded_file td f = Inr (None, msg) \<Longrightarrow> data_source td (Some f) d = Stopped msg"
  by (simp add: data_source_def)

lemma data_source_raised:
  "load_uploaded_file td f = Inl e \<Longrightarrow> data_source td (Some f) d = Crashed e"
  by (simp add: data_source_def)

lemma unparsed_dates_raise:
  "read_upload f = Some (Inr df) \<Longrightarrow> missing_columns df = [] \<Longrightarrow>
   getitem df ''date'' = Inr col \<Longrightarrow> td col = Inl e \<Longrightarrow>
   data_source td (Some f) d = Crashed e"
  by (simp add: data_source_def load_uploaded_file_def Let_def)

text \<open>
  C8, as the code has it. When the uploaded file has an unsupported extension or lacks
  required columns, the run shows the message of the loader and stops there: the file
  is not adopted and the run has no table, whatever the default file holds.
\<close>

theorem rejected_upload_stops_run:
  "(read_upload f = None \<longrightarrow>
      data_source td (Some f) d =
        Stopped (cross_mark @ '' Unsupported file type. Please upload CSV or Excel.''))
   \<and> (read_upload f = Some (Inr df) \<and> missing_columns df \<noteq> [] \<longrightarrow>
      data_source td (Some f) d =
        Stopped (cross_mark @ '' Missing columns: '' @ join '', '' (missing_columns df)))
   \<and> (load_uploaded_file td f = Inr (None, msg) \<longrightarrow>
      active_table (data_source td (Some f) d) = None)"
  using load_unsupported [of f td] load_missing [of f df td] data_source_rejected [of td f _ d]
  by auto

theorem rejected_upload_stops_run_witness:
  "read_upload notes_txt = None
   \<and> data_source keep_dates (Some notes_txt) (Inr complete_frame) =
       Stopped (cross_mark @ '' Unsupported file type. Please upload CSV or Excel.'')
   \<and> read_upload no_quality_csv = Some (Inr no_quality)
   \<and> data_source keep_dates (Some no_quality_csv) (Inr complete_frame) =
       Stopped (cross_mark @ '' Missing columns: quality'')
   \<and> active_table (data_source keep_dates (Some no_quality_csv) (Inr complete_frame)) = None"
proof -
  have a: "read_upload notes_txt = None"
    by (simp add: read_upload_def notes_txt_def endswith_def)
  have b: "read_upload no_quality_csv = Some (Inr no_quality)"
    by (simp add: read_upload_def no_quality_csv_def endswith_def)
  have c: "missing_columns no_quality = [''quality'']"
    by (simp add: missing_columns_def no_quality_def one_row_def required_columns_def columns_def)
  have d: "load_uploaded_file keep_dates no_quality_csv =
             Inr (None, cross_mark @ '' Missing columns: quality'')"
    using load_missing [OF b, of keep_dates] c by simp
  show ?thesis
    using rejected_upload_stops_run [of notes_txt keep_dates "Inr complete_frame"]
      rejected_upload_stops_run [of no_quality_csv keep_dates "Inr complete_frame" no_quality
         "cross_mark @ '' Missing columns: quality''"]
      a b c d by simp
qed

text \<open>
  A run without an upload works on the default table; the run with a file of an
  unsupported type stops with the message and has no table, the default one included.
\<close>

theorem previous_table_counterexample:
  "active_table (data_source keep_dates None (Inr complete_frame)) = Some complete_frame
   \<and> data_source keep_dates (Some notes_txt) (Inr complete_frame) =
       Stopped (cross_mark @ '' Unsupported file type. Please upload CSV or Excel.'')
   \<and> active_table (data_source keep_dates (Some notes_txt) (Inr complete_frame)) = None"
proof -
  have g: "getitem complete_frame ''date'' = Inr [''1'']"
    by (simp add: getitem_def complete_frame_def one_row_def required_columns_def)
  have s: "setitem complete_frame ''date'' [''1''] = complete_frame"
    by (simp add: setitem_def complete_frame_def one_row_def required_columns_def)
  have "data_source keep_dates None (Inr complete_frame) =
          Loaded complete_frame (folder_sign @ '' Default Dataset (oee_data.csv)'')"
    by (simp add: data_source_def load_default_data_def g keep_dates_def s)
  moreover have "read_upload notes_txt = None"
    by (simp add: read_upload_def notes_txt_def endswith_def)
  then have "data_source keep_dates (Some notes_txt) (Inr complete_frame) =
       Stopped (cross_mark @ '' Unsupported file type. Please upload CSV or Excel.'')"
    by (simp add: data_source_def load_uploaded_file_def)
  ultimately show ?thesis by simp
qed

section \<open>Properties of grouping\<close>

lemma unique_snoc:
  "unique (xs @ [x]) = (if x \<in> set xs then unique xs else unique xs @ [x])"
  using set_unique [of xs] by (simp add: unique_def)

lemma distinct_unique: "distinct (unique xs)"
proof (induction xs rule: rev_induct)
  case Nil show ?case by (simp add: unique_def)
next
  case (snoc x xs) then show ?case by (simp add: unique_snoc set_unique)
qed

lemma group_add_map:
  "distinct ks \<Longrightarrow>
   group_add k v (map (\<lambda>j. (j, F j)) ks) =
     (if k \<in> set ks then map (\<lambda>j. (j, if j = k then F j @ [v] else F j)) ks
      else map (\<lambda>j. (j, F j)) ks @ [(k, [v])])"
  by (induction ks) auto

lemma map_filter_snoc:
  "List.map_filter f (xs @ [x]) =
     (case f x of None \<Rightarrow> List.map_filter f xs | Some y \<Rightarrow> List.map_filter f xs @ [y])"
  by (simp add: List.map_filter_def split: option.splits)

lemma set_map_filter: "set (List.map_filter f xs) = {y. \<exists>x\<in>set xs. f x = Some y}"
  by (induction xs) (auto split: option.splits)

lemma collect_groups_snoc:
  "collect_groups key val (df @ [r]) =
     (case key r of None \<Rightarrow> collect_groups key val df
      | Some k \<Rightarrow> group_add k (val r) (collect_groups key val df))"
  unfolding collect_groups_def by simp

lemma collect_groups_eq:
  "collect_groups key val df =
     map (\<lambda>k. (k, map val (filter (\<lambda>r. key r = Some k) df))) (unique (List.map_filter key df))"
proof (induction df rule: rev_induct)
  case Nil
  show ?case by (simp add: collect_groups_def unique_def)
next
  case (snoc r df)
  show ?case
  proof (cases "key r")
    case None
    then show ?thesis
      by (simp add: collect_groups_snoc map_filter_snoc snoc.IH)
  next
    case (Some k)
    let ?ks = "unique (List.map_filter key df)"
    have d: "distinct ?ks" by (rule distinct_unique)
    have s: "set ?ks = {y. \<exists>x\<in>set df. key x = Some y}"
      by (simp add: set_unique set_map_filter)
    show ?thesis
    proof (cases "k \<in> set ?ks")
      case True
      then have "k \<in> set (List.map_filter key df)" by (simp add: set_unique)
      then show ?thesis
        using Some True d
        by (simp add: collect_groups_snoc map_filter_snoc snoc.IH unique_snoc group_add_map)
    next
      case False
      then have nk: "k \<notin> set (List.map_filter key df)" by (simp add: set_unique)
      have "filter (\<lambda>r. key r = Some k) df = []"
        using False s by (auto simp: filter_empty_conv)
      moreover have "\<forall>j\<in>set ?ks. k \<noteq> j" using False by auto
      ultimately show ?thesis
        using Some False d nk
        by (simp add: collect_groups_snoc map_filter_snoc snoc.IH unique_snoc group_add_map)
    qed
  qed
qed

lemma insort_key_fst_map:
  "insort_key fst (k, F k) (map (\<lambda>j. (j, F j)) ks) = map (\<lambda>j. (j, F j)) (insort k ks)"
  by (induction ks) auto

lemma sort_key_fst_map:
  "sort_key fst (map (\<lambda>j. (j, F j)) ks) = map (\<lambda>j. (j, F j)) (sort ks)"
  by (induction ks) (simp_all add: insort_key_fst_map)

lemma groupby_eq:
  "groupby key val df =
     map (\<lambda>k. (k, map val (filter (\<lambda>r. key r = Some k) df))) (group_keys key df)"
  by (simp add: groupby_def collect_groups_eq sort_key_fst_map group_keys_def)

lemma group_keys_strict: "sorted_wrt (<) (group_keys key df)"
  by (simp add: strict_sorted_iff group_keys_def distinct_unique)

lemma set_group_keys: "set (group_keys key df) = {k. \<exists>r\<in>set df. key r = Some k}"
  by (simp add: group_keys_def set_unique set_map_filter)

lemma group_keys_sorted_list:
  "group_keys key df = sorted_list_of_set {k. \<exists>r\<in>set df. key r = Some k}"
proof -
  let ?K = "{k. \<exists>r\<in>set df. key r = Some k}"
  have "?K = set (group_keys key df)" by (simp add: set_group_keys)
  then have fin: "finite ?K" by (metis List.finite_set)
  have "sorted (group_keys key df)" "distinct (group_keys key df)"
    using group_keys_strict [of key df] by (simp_all add: strict_sorted_iff)
  moreover have "sorted (sorted_list_of_set ?K)" "distinct (sorted_list_of_set ?K)"
    by simp_all
  moreover have "set (group_keys key df) = set (sorted_list_of_set ?K)"
    using fin by (simp add: set_group_keys)
  ultimately show ?thesis by (metis sorted_distinct_set_unique)
qed

section \<open>Properties of the comparison of machines\<close>

lemma mean_nonempty:
  "xs \<noteq> [] \<Longrightarrow> mean xs = Fin (sum_list xs / of_nat (length xs))"
  by (simp add: mean_def fdiv_def)

text \<open>
  C9. For every filtered table, the comparison of machines has one line for each machine
  of the table, in ascending order of the labels, holding the arithmetic means of
  \<^verbatim>\<open>oee\<close>, \<^verbatim>\<open>availability\<close>, \<^verbatim>\<open>performance\<close> and \<^verbatim>\<open>quality\<close> over the rows
  of that machine. With the values 0.9, 0.8, 0.7 for M1 and 0.6, 0.5, 0.4 for M2 the
  mean \<^verbatim>\<open>oee\<close> is 0.8 for M1 and 0.5 for M2.
\<close>

theorem machine_oee_spec:
  "machine_oee df =
     map (\<lambda>m. let g = filter (\<lambda>r. machine r = m) df; n = of_nat (length g)
               in (m, Fin (sum_list (map oee g) / n), Fin (sum_list (map availability g) / n),
                      Fin (sum_list (map performance g) / n), Fin (sum_list (map quality g) / n)))
         (sorted_list_of_set (machine ` set df))
   \<and> machine_oee scenario_1 =
       [(''M1'', Fin 0.8, Fin 1, Fin 1, Fin 1), (''M2'', Fin 0.5, Fin 1, Fin 1, Fin 1)]"
proof -
  have keys: "group_keys (\<lambda>r. Some (machine r)) df = sorted_list_of_set (machine ` set df)"
  proof -
    have "{k. \<exists>r\<in>set df. Some (machine r) = Some k} = machine ` set df" by auto
    then show ?thesis by (simp add: group_keys_sorted_list)
  qed
  have "machine_oee df =
     map (\<lambda>m. (m, mean (map oee (filter (\<lambda>r. machine r = m) df)),
                  mean (map availability (filter (\<lambda>r. machine r = m) df)),
                  mean (map performance (filter (\<lambda>r. machine r = m) df)),
                  mean (map quality (filter (\<lambda>r. machine r = m) df))))
         (sorted_list_of_set (machine ` set df))"
    by (simp add: machine_oee_def groupby_eq keys comp_def)
  also have "\<dots> = map (\<lambda>m. let g = filter (\<lambda>r. machine r = m) df; n = of_nat (length g)
               in (m, Fin (sum_list (map oee g) / n), Fin (sum_list (map availability g) / n),
                      Fin (sum_list (map performance g) / n), Fin (sum_list (map quality g) / n)))
         (sorted_list_of_set (machine ` set df))"
  proof (rule map_cong [OF refl])
    fix m assume "m \<in> set (sorted_list_of_set (machine ` set df))"
    then have "m \<in> machine ` set df" by simp
    then have ne: "filter (\<lambda>r. machine r = m) df \<noteq> []"
      by (auto simp: filter_empty_conv)
    show "(m, mean (map oee (filter (\<lambda>r. machine r = m) df)),
                  mean (map availability (filter (\<lambda>r. machine r = m) df)),
                  mean (map performance (filter (\<lambda>r. machine r = m) df)),
                  mean (map quality (filter (\<lambda>r. machine r = m) df))) =
          (let g = filter (\<lambda>r. machine r = m) df; n = of_nat (length g)
               in (m, Fin (sum_list (map oee g) / n), Fin (sum_list (map availability g) / n),
                      Fin (sum_list (map performance g) / n), Fin (sum_list (map quality g) / n)))"
      using ne by (simp add: mean_nonempty Let_def)
  qed
  finally have general: "machine_oee df =
     map (\<lambda>m. let g = filter (\<lambda>r. machine r = m) df; n = of_nat (length g)
               in (m, Fin (sum_list (map oee g) / n), Fin (sum_list (map availability g) / n),
                      Fin (sum_list (map performance g) / n), Fin (sum_list (map quality g) / n)))
         (sorted_list_of_set (machine ` set df))" .
  have example: "machine_oee scenario_1 =
       [(''M1'', Fin 0.8, Fin 1, Fin 1, Fin 1), (''M2'', Fin 0.5, Fin 1, Fin 1, Fin 1)]"
    by (simp add: machine_oee_def groupby_def collect_groups_def scenario_1_def sample_row_def
        mean_def fdiv_def Timestamp_def)
  show ?thesis using general example by (rule conjI)
qed

section \<open>Properties of the 64-bit sums\<close>

lemma wrap64_0: "wrap64 0 = 0"
  by (simp add: wrap64_def)

lemma wrap64_id: "- (2 ^ 63) \<le> x \<Longrightarrow> x < 2 ^ 63 \<Longrightarrow> wrap64 x = x"
  by (simp add: wrap64_def)

lemma wrap64_add: "wrap64 (wrap64 a + b) = wrap64 (a + b)"
proof -
  have "(wrap64 a + b + 2 ^ 63) mod 2 ^ 64 = (((a + 2 ^ 63) mod 2 ^ 64) + b) mod 2 ^ 64"
    by (simp add: wrap64_def algebra_simps)
  also have "\<dots> = (a + 2 ^ 63 + b) mod 2 ^ 64"
    by (rule mod_add_left_eq)
  finally show ?thesis by (simp add: wrap64_def algebra_simps)
qed

lemma foldl_wrap64:
  "foldl (\<lambda>acc x. wrap64 (acc + x)) (wrap64 a) xs = wrap64 (a + sum_list xs)"
proof (induction xs arbitrary: a)
  case Nil show ?case by simp
next
  case (Cons x xs)
  show ?case using Cons.IH [of "a + x"] by (simp add: wrap64_add add.assoc)
qed

lemma sum64_wrap: "sum64 xs = wrap64 (sum_list xs)"
  using foldl_wrap64 [of 0 xs] by (simp add: sum64_def wrap64_0)

lemma sum64_exact:
  "\<forall>x\<in>set xs. 0 \<le> x \<Longrightarrow> sum_list xs < 2 ^ 63 \<Longrightarrow> sum64 xs = sum_list xs"
proof -
  assume "\<forall>x\<in>set xs. 0 \<le> x" and b: "sum_list xs < 2 ^ 63"
  then have "0 \<le> sum_list xs" by (simp add: sum_list_nonneg)
  then show ?thesis using b by (simp add: sum64_wrap wrap64_id)
qed

lemma cumsum_from_wrap:
  "cumsum_from (wrap64 a) xs =
     map (\<lambda>i. wrap64 (a + sum_list (take (Suc i) xs))) [0..<length xs]"
proof (induction xs arbitrary: a)
  case Nil show ?case by simp
next
  case (Cons x xs)
  have "cumsum_from (wrap64 a) (x # xs) = wrap64 (a + x) # cumsum_from (wrap64 (a + x)) xs"
    by (simp add: wrap64_add)
  also have "\<dots> = wrap64 (a + x) #
       map (\<lambda>i. wrap64 (a + x + sum_list (take (Suc i) xs))) [0..<length xs]"
    by (simp only: Cons.IH)
  also have "\<dots> = map (\<lambda>i. wrap64 (a + sum_list (take (Suc i) (x # xs)))) [0..<length (x # xs)]"
    by (simp add: upt_conv_Cons map_Suc_upt [symmetric] add.assoc del: upt_Suc)
  finally show ?case .
qed

lemma cumsum_eq: "cumsum xs = map (\<lambda>i. sum64 (take (Suc i) xs)) [0..<length xs]"
  using cumsum_from_wrap [of 0 xs] by (simp add: cumsum_def wrap64_0 sum64_wrap)

section \<open>Properties of the downtime ranking\<close>

lemma mset_sort_values_desc: "mset (sort_values_desc ties xs) = mset xs"
proof -
  have "mset (sort_values_desc ties xs) = image_mset snd (mset (enumerate 0 xs))"
    by (simp add: sort_values_desc_def)
  also have "\<dots> = mset (map snd (enumerate 0 xs))" by (simp only: mset_map)
  also have "\<dots> = mset xs" by (simp only: map_snd_enumerate)
  finally show ?thesis .
qed

lemma set_sort_values_desc: "set (sort_values_desc ties xs) = set xs"
  using mset_sort_values_desc [of ties xs] by (rule mset_eq_setD)

lemma length_sort_values_desc: "length (sort_values_desc ties xs) = length xs"
  using mset_sort_values_desc [of ties xs] by (rule mset_eq_length)

lemma sort_values_desc_descending:
  "sorted_wrt (\<ge>) (map snd (sort_values_desc ties xs))"
proof -
  let ?inner = "sort_key (\<lambda>(i, g). ties (map snd xs) i) (enumerate 0 xs)"
  let ?L = "sort_key (\<lambda>(i, g). snd g) ?inner"
  have "sorted (map (\<lambda>(i, g). snd g) ?L)" by (rule sorted_sort_key)
  then have "sorted_wrt (\<lambda>x y. y \<le> x) (rev (map (\<lambda>(i, g). snd g) ?L))"
    by (simp add: sorted_wrt_rev)
  moreover have "map snd (sort_values_desc ties xs) = rev (map (\<lambda>(i, g). snd g) ?L)"
    by (simp add: sort_values_desc_def rev_map case_prod_unfold comp_def)
  ultimately show ?thesis by simp
qed

text \<open>
  Nothing is lost by the parameter: every descending arrangement of distinct lines is
  the outcome of the sort for some priority.
\<close>

lemma takeWhile_index:
  "distinct L \<Longrightarrow> map (\<lambda>g. length (takeWhile (\<lambda>h. h \<noteq> g) L)) L = [0..<length L]"
proof (induction L)
  case Nil show ?case by simp
next
  case (Cons x L)
  have "map (\<lambda>g. length (takeWhile (\<lambda>h. h \<noteq> g) (x # L))) L =
        map (\<lambda>g. Suc (length (takeWhile (\<lambda>h. h \<noteq> g) L))) L"
    using Cons.prems by (intro map_cong [OF refl]) auto
  also have "\<dots> = map Suc (map (\<lambda>g. length (takeWhile (\<lambda>h. h \<noteq> g) L)) L)"
    by (simp add: comp_def)
  also have "\<dots> = map Suc [0..<length L]" using Cons by simp
  also have "\<dots> = [Suc 0..<Suc (length L)]" by (rule map_Suc_upt)
  finally show ?case by (simp add: upt_conv_Cons del: upt_Suc)
qed

lemma sort_values_desc_any_order:
  assumes d: "distinct xs" and m: "mset ys = mset xs" and s: "sorted_wrt (\<ge>) (map snd ys)"
  shows "\<exists>ties. sort_values_desc ties xs = ys"
proof -
  define L where "L = rev ys"
  define idx where "idx = (\<lambda>g. length (takeWhile (\<lambda>h. h \<noteq> g) L))"
  define ties :: "int list \<Rightarrow> nat \<Rightarrow> nat" where "ties = (\<lambda>vs i. idx (xs ! i))"
  let ?k = "\<lambda>(i, g). ties (map snd xs) i"
  let ?E = "enumerate 0 xs"
  let ?S = "sort_key ?k ?E"
  have mL: "mset L = mset xs" by (simp add: L_def m)
  then have dL: "distinct L" using d by (metis mset_eq_imp_distinct_iff)
  have setL: "set L = set xs" using mL by (rule mset_eq_setD)
  have idxL: "map idx L = [0..<length L]"
    unfolding idx_def using dL by (rule takeWhile_index)
  have key: "?k p = idx (snd p)" if "p \<in> set ?S" for p
  proof -
    have "p \<in> set ?E" using that by simp
    then have "xs ! fst p = snd p" by (simp add: in_set_enumerate_eq)
    then show ?thesis by (simp add: ties_def case_prod_unfold)
  qed
  have "sorted (map ?k ?S)" by (rule sorted_sort_key)
  moreover have "map ?k ?S = map idx (map snd ?S)"
    using key by (simp add: comp_def)
  ultimately have sortedS: "sorted (map idx (map snd ?S))" by simp
  have msetS: "mset (map snd ?S) = mset L"
  proof -
    have "mset (map snd ?S) = image_mset snd (mset ?E)" by simp
    also have "\<dots> = mset (map snd ?E)" by (simp only: mset_map)
    also have "\<dots> = mset xs" by (simp only: map_snd_enumerate)
    finally show ?thesis by (simp add: mL)
  qed
  have "mset (map idx (map snd ?S)) = mset (map idx L)"
    using msetS by (metis mset_map)
  then have "sort (map idx L) = map idx (map snd ?S)"
    using sortedS by (intro properties_for_sort) simp_all
  moreover have "sort (map idx L) = map idx L"
    by (simp add: idxL sorted_sort_id)
  ultimately have eq: "map idx (map snd ?S) = map idx L" by simp
  have "inj_on idx (set L)"
    using idxL distinct_map [of idx L] by simp
  moreover have "set (map snd ?S) = set L" using msetS by (rule mset_eq_setD)
  ultimately have SL: "map snd ?S = L"
    using eq by (intro map_inj_on [OF eq]) simp
  have "sorted (rev (map snd ys))" using s by (simp add: sorted_wrt_rev)
  then have "sorted (map snd L)" by (simp add: L_def rev_map)
  moreover have "map (\<lambda>(i, g). snd g) ?S = map snd (map snd ?S)"
    by (simp add: case_prod_unfold comp_def)
  ultimately have "sorted (map (\<lambda>(i, g). snd g) ?S)"
    by (simp only: SL)
  then have "sort_key (\<lambda>(i, g). snd g) ?S = ?S" by (rule sort_key_id_if_sorted)
  then have "sort_values_desc ties xs = map snd (rev ?S)"
    by (simp add: sort_values_desc_def)
  also have "\<dots> = rev (map snd ?S)" by (simp add: rev_map)
  also have "\<dots> = ys" by (simp add: SL L_def)
  finally show ?thesis by blast
qed

lemma pareto_sums_eq:
  "pareto_sums df =
     map (\<lambda>k. (k, sum64 (map downtime_min (filter (\<lambda>r. downtime_reason r = Some k) df))))
         (group_keys downtime_reason df)"
  by (simp add: pareto_sums_def groupby_eq comp_def)

lemma pareto_sums_keys: "map fst (pareto_sums df) = group_keys downtime_reason df"
  by (simp add: pareto_sums_eq comp_def)

lemma set_pareto:
  "set (pareto ties df) =
     (\<lambda>k. (k, sum64 (map downtime_min (filter (\<lambda>r. downtime_reason r = Some k) df))))
       ` {k. \<exists>r\<in>set df. downtime_reason r = Some k}"
  by (simp add: pareto_def set_sort_values_desc pareto_sums_eq set_group_keys)

lemma distinct_pareto_keys: "distinct (map fst (pareto ties df))"
proof -
  have "mset (map fst (pareto ties df)) = mset (map fst (pareto_sums df))"
    by (simp add: pareto_def mset_sort_values_desc)
  then have "distinct (map fst (pareto ties df)) = distinct (map fst (pareto_sums df))"
    by (rule mset_eq_imp_distinct_iff)
  also have "\<dots>" using group_keys_strict [of downtime_reason df]
    by (simp add: pareto_sums_keys strict_sorted_iff)
  finally show ?thesis .
qed

lemma sum_filter_mset:
  "sum_list (map f (filter P xs)) = sum_mset (image_mset f (filter_mset P (mset xs)))"
  by (metis mset_filter mset_map sum_mset_sum_list)

lemma pareto_sums_perm:
  assumes "mset df' = mset df"
  shows "pareto_sums df' = pareto_sums df"
proof -
  have "set df' = set df" using assms by (rule mset_eq_setD)
  then have "group_keys downtime_reason df' = group_keys downtime_reason df"
    by (simp add: group_keys_sorted_list)
  then show ?thesis
    by (simp add: pareto_sums_eq sum64_wrap sum_filter_mset assms)
qed

lemma sum_group_add:
  "sum_list (map (\<lambda>g. sum_list (snd g)) (group_add k (v::int) gs)) =
     v + sum_list (map (\<lambda>g. sum_list (snd g)) gs)"
  by (induction gs) auto

lemma sum_collect_groups:
  "sum_list (map (\<lambda>g. sum_list (snd g)) (collect_groups key val df)) =
     (sum_list (map val (filter (\<lambda>r. key r \<noteq> None) df)) :: int)"
proof (induction df rule: rev_induct)
  case Nil show ?case by (simp add: collect_groups_def)
next
  case (snoc r df)
  then show ?case
    by (cases "key r") (simp_all add: collect_groups_snoc sum_group_add)
qed

lemma sum_groups:
  "sum_list (map (\<lambda>k. sum_list (map val (filter (\<lambda>r. key r = Some k) df))) (group_keys key df)) =
     (sum_list (map val (filter (\<lambda>r. key r \<noteq> None) df)) :: int)"
proof -
  have "sum_list (map (\<lambda>k. sum_list (map val (filter (\<lambda>r. key r = Some k) df))) (group_keys key df))
        = sum_list (map (\<lambda>g. sum_list (snd g)) (groupby key val df))"
    by (simp add: groupby_eq comp_def)
  also have "\<dots> = sum_mset (image_mset (\<lambda>g. sum_list (snd g)) (mset (groupby key val df)))"
    by (metis mset_map sum_mset_sum_list)
  also have "\<dots> = sum_mset (image_mset (\<lambda>g. sum_list (snd g)) (mset (collect_groups key val df)))"
    by (simp add: groupby_def)
  also have "\<dots> = sum_list (map (\<lambda>g. sum_list (snd g)) (collect_groups key val df))"
    by (metis mset_map sum_mset_sum_list)
  finally show ?thesis by (simp only: sum_collect_groups)
qed

lemma sum_filter_le:
  fixes f :: "'a \<Rightarrow> int"
  assumes "\<forall>x\<in>set xs. 0 \<le> f x"
  shows "0 \<le> sum_list (map f (filter P xs)) \<and> sum_list (map f (filter P xs)) \<le> sum_list (map f xs)"
  using assms by (induction xs) auto

lemma group_sum_exact:
  assumes "\<forall>r\<in>set df. 0 \<le> downtime_min r" and "sum_list (map downtime_min df) < 2 ^ 63"
  shows "sum64 (map downtime_min (filter P df)) = sum_list (map downtime_min (filter P df))"
proof -
  have "sum_list (map downtime_min (filter P df)) < 2 ^ 63"
    using sum_filter_le [OF assms(1), of P] assms(2) by linarith
  moreover have "\<forall>x\<in>set (map downtime_min (filter P df)). 0 \<le> x" using assms(1) by auto
  ultimately show ?thesis by (simp only: sum64_exact)
qed

lemma pareto_sums_exact:
  assumes "\<forall>r\<in>set df. 0 \<le> downtime_min r" and "sum_list (map downtime_min df) < 2 ^ 63"
  shows "pareto_sums df =
     map (\<lambda>k. (k, sum_list (map downtime_min (filter (\<lambda>r. downtime_reason r = Some k) df))))
         (group_keys downtime_reason df)"
  by (simp add: pareto_sums_eq group_sum_exact [OF assms])

lemma sum_pareto_exact:
  assumes "\<forall>r\<in>set df. 0 \<le> downtime_min r" and "sum_list (map downtime_min df) < 2 ^ 63"
  shows "sum_list (map snd (pareto ties df)) =
     sum_list (map downtime_min (filter (\<lambda>r. downtime_reason r \<noteq> None) df))"
proof -
  have "sum_list (map snd (pareto ties df)) = sum_mset (image_mset snd (mset (pareto ties df)))"
    by (metis mset_map sum_mset_sum_list)
  also have "\<dots> = sum_mset (image_mset snd (mset (pareto_sums df)))"
    by (simp add: pareto_def mset_sort_values_desc)
  also have "\<dots> = sum_list (map snd (pareto_sums df))"
    by (metis mset_map sum_mset_sum_list)
  also have "\<dots> = sum_list (map (\<lambda>k. sum_list (map downtime_min
                        (filter (\<lambda>r. downtime_reason r = Some k) df))) (group_keys downtime_reason df))"
    by (simp add: pareto_sums_exact [OF assms] comp_def)
  finally show ?thesis by (simp only: sum_groups)
qed

lemma sum_labelled:
  "\<forall>r\<in>set df. downtime_reason r = None \<longrightarrow> downtime_min r = 0 \<Longrightarrow>
   sum_list (map downtime_min (filter (\<lambda>r. downtime_reason r \<noteq> None) df)) =
     sum_list (map downtime_min df)"
  by (induction df) auto

lemma set_pareto_exact:
  assumes "\<forall>r\<in>set df. 0 \<le> downtime_min r" and "sum_list (map downtime_min df) < 2 ^ 63"
  shows "set (pareto ties df) =
     (\<lambda>k. (k, sum_list (map downtime_min (filter (\<lambda>r. downtime_reason r = Some k) df))))
       ` {k. \<exists>r\<in>set df. downtime_reason r = Some k}"
  by (simp add: set_pareto group_sum_exact [OF assms])

lemma pareto_values_nonneg:
  assumes "\<forall>r\<in>set df. 0 \<le> downtime_min r" and "sum_list (map downtime_min df) < 2 ^ 63"
  shows "\<forall>g\<in>set (pareto ties df). 0 \<le> snd g"
  using sum_filter_le [OF assms(1)] by (auto simp: set_pareto_exact [OF assms])

lemma cumulative_pct_eq:
  "cumulative_pct p =
     map (\<lambda>i. fscale (fdiv (of_int (sum64 (take (Suc i) (map snd p))))
                            (of_int (sum64 (map snd p)))) 100) [0..<length p]"
  by (simp add: cumulative_pct_def cumsum_eq comp_def)

lemma cumulative_pct_last:
  assumes "sum64 (map snd p) \<noteq> 0"
  shows "last (cumulative_pct p) = Fin 100"
proof -
  have ne: "p \<noteq> []" using assms by (auto simp: sum64_def)
  then have idx: "[0..<length p] \<noteq> []" by simp
  have "last (cumulative_pct p) =
     fscale (fdiv (of_int (sum64 (take (Suc (last [0..<length p])) (map snd p))))
                            (of_int (sum64 (map snd p)))) 100"
    unfolding cumulative_pct_eq by (rule last_map [OF idx])
  moreover have "last [0..<length p] = length p - 1" using ne by (cases p rule: rev_cases) auto
  moreover have "Suc (length p - 1) = length p" using ne by (cases p) auto
  ultimately show ?thesis using assms by (simp add: fdiv_def fscale_def)
qed

lemma sum_take_mono:
  fixes xs :: "int list"
  assumes "\<forall>x\<in>set xs. 0 \<le> x" and "i \<le> j"
  shows "0 \<le> sum_list (take i xs) \<and> sum_list (take i xs) \<le> sum_list (take j xs)
         \<and> sum_list (take j xs) \<le> sum_list xs"
proof -
  have nn: "0 \<le> sum_list (take k xs)" "0 \<le> sum_list (drop k xs)" for k
    using assms(1) by (auto intro!: sum_list_nonneg dest: in_set_takeD in_set_dropD)
  have "sum_list xs = sum_list (take j xs) + sum_list (drop j xs)"
    by (metis append_take_drop_id sum_list_append)
  moreover have "take j xs = take i (take j xs) @ drop i (take j xs)"
    by (simp only: append_take_drop_id)
  then have "sum_list (take j xs) = sum_list (take i (take j xs)) + sum_list (drop i (take j xs))"
    by (metis sum_list_append)
  moreover have "take i (take j xs) = take i xs" using assms(2) by (simp add: min_def)
  moreover have "0 \<le> sum_list (drop i (take j xs))"
    using assms(1) by (auto intro!: sum_list_nonneg dest: in_set_takeD in_set_dropD)
  ultimately show ?thesis using nn [of i] nn [of j] by simp
qed

lemma cumulative_pct_exact:
  assumes nonneg: "\<forall>g\<in>set p. 0 \<le> snd g" and bound: "sum_list (map snd p) < 2 ^ 63"
    and pos: "0 < sum_list (map snd p)"
  shows "cumulative_pct p =
     map (\<lambda>i. Fin (of_int (sum_list (take (Suc i) (map snd p))) / of_int (sum_list (map snd p)) * 100))
         [0..<length p]"
proof -
  have nn: "\<forall>x\<in>set (map snd p). 0 \<le> x" using nonneg by auto
  have total: "sum64 (map snd p) = sum_list (map snd p)"
    using nn bound by (rule sum64_exact)
  have part: "sum64 (take k (map snd p)) = sum_list (take k (map snd p))" for k
  proof (rule sum64_exact)
    show "\<forall>x\<in>set (take k (map snd p)). 0 \<le> x" by (meson nn in_set_takeD)
    show "sum_list (take k (map snd p)) < 2 ^ 63"
      using sum_take_mono [OF nn, of k k] bound by linarith
  qed
  show ?thesis
    unfolding cumulative_pct_eq total
    by (rule map_cong [OF refl]) (use pos in \<open>simp add: part fdiv_def fscale_def\<close>)
qed

lemma nondecreasing_Fin: "nondecreasing (map Fin xs) = sorted xs"
proof (induction xs)
  case Nil show ?case by simp
next
  case (Cons x xs)
  show ?case
  proof (cases xs)
    case Nil then show ?thesis by simp
  next
    case (Cons y ys)
    have "sorted (x # y # ys) = (x \<le> y \<and> sorted (y # ys))" by auto
    then show ?thesis using Cons.IH Cons by simp
  qed
qed

lemma cumulative_pct_nondecreasing:
  assumes nonneg: "\<forall>g\<in>set p. 0 \<le> snd g" and bound: "sum_list (map snd p) < 2 ^ 63"
    and pos: "0 < sum_list (map snd p)"
  shows "nondecreasing (cumulative_pct p)"
proof -
  let ?T = "sum_list (map snd p)"
  let ?f = "\<lambda>i. (of_int (sum_list (take (Suc i) (map snd p))) :: rat) / of_int ?T * 100"
  have nn: "\<forall>x\<in>set (map snd p). 0 \<le> x" using nonneg by auto
  have mono: "?f i \<le> ?f j" if "i \<le> j" for i j
  proof -
    have "sum_list (take (Suc i) (map snd p)) \<le> sum_list (take (Suc j) (map snd p))"
      using sum_take_mono [OF nn, of "Suc i" "Suc j"] that by simp
    then show ?thesis using pos by (simp add: divide_right_mono)
  qed
  have "sorted_wrt (\<le>) [0..<length p]" by simp
  then have "sorted_wrt (\<lambda>i j. ?f i \<le> ?f j) [0..<length p]"
    by (rule sorted_wrt_mono_rel [rotated]) (rule mono)
  then have "sorted (map ?f [0..<length p])"
    by (simp only: sorted_wrt_map)
  then have "nondecreasing (map Fin (map ?f [0..<length p]))"
    by (simp only: nondecreasing_Fin)
  then show ?thesis
    by (simp only: cumulative_pct_exact [OF assms] map_map comp_def)
qed

lemma sum_list_zeros: "\<forall>x\<in>set xs. x = (0::int) \<Longrightarrow> sum_list xs = 0"
  by (induction xs) auto

lemma cumulative_pct_zero:
  assumes "\<forall>g\<in>set p. snd g = 0"
  shows "cumulative_pct p = replicate (length p) NaN"
proof -
  have "\<forall>x\<in>set (map snd p). x = 0" using assms by auto
  then have "\<forall>x\<in>set (take k (map snd p)). x = 0" for k by (meson in_set_takeD)
  then have z: "sum_list (take k (map snd p)) = 0" for k by (rule sum_list_zeros)
  have "sum_list (map snd p) = 0" using z [of "length p"] by simp
  then have "cumulative_pct p = map (\<lambda>i. NaN) [0..<length p]"
    unfolding cumulative_pct_eq
    by (simp add: sum64_wrap z wrap64_0 fdiv_def fscale_def del: upt_Suc)
  then show ?thesis by (simp add: map_replicate_const del: upt_Suc)
qed

text \<open>
  C4, as the code has it. For every filtered table and every way of ordering equal sums,
  the ranking has one line for each reason that occurs, holding the 64-bit sum of the
  downtime of the rows with that reason (a row without a reason is in no group); the
  lines are in descending order of that sum; the cumulative percentage of a line is
  the running sum down to that line over the sum of all lines, times 100, and the last
  one is 100 whenever the sum of all lines is not zero. When no downtime is negative
  and the downtimes of the table add up to less than \<open>2 ^ 63\<close>, the sums are the exact
  ones, they add up to the downtime of the rows that have a reason, which is the
  downtime of the whole table when the rows without a reason have none, and, when
  they add up to a positive number, the cumulative percentages never decrease.
\<close>

theorem pareto_spec:
  "distinct (map fst (pareto ties df))
   \<and> set (pareto ties df) =
       (\<lambda>k. (k, sum64 (map downtime_min (filter (\<lambda>r. downtime_reason r = Some k) df))))
         ` {k. \<exists>r\<in>set df. downtime_reason r = Some k}
   \<and> sorted_wrt (\<ge>) (map snd (pareto ties df))
   \<and> cumulative_pct (pareto ties df) =
       map (\<lambda>i. fscale (fdiv (of_int (sum64 (take (Suc i) (map snd (pareto ties df)))))
                              (of_int (sum64 (map snd (pareto ties df))))) 100)
           [0..<length (pareto ties df)]
   \<and> (sum64 (map snd (pareto ties df)) \<noteq> 0 \<longrightarrow>
         last (cumulative_pct (pareto ties df)) = Fin 100)
   \<and> ((\<forall>r\<in>set df. 0 \<le> downtime_min r) \<and> sum_list (map downtime_min df) < 2 ^ 63 \<longrightarrow>
         set (pareto ties df) =
           (\<lambda>k. (k, sum_list (map downtime_min (filter (\<lambda>r. downtime_reason r = Some k) df))))
             ` {k. \<exists>r\<in>set df. downtime_reason r = Some k}
         \<and> sum_list (map snd (pareto ties df)) =
             sum_list (map downtime_min (filter (\<lambda>r. downtime_reason r \<noteq> None) df))
         \<and> ((\<forall>r\<in>set df. downtime_reason r = None \<longrightarrow> downtime_min r = 0) \<longrightarrow>
               sum_list (map snd (pareto ties df)) = sum_list (map downtime_min df))
         \<and> (0 < sum_list (map snd (pareto ties df)) \<longrightarrow>
               cumulative_pct (pareto ties df) =
                 map (\<lambda>i. Fin (of_int (sum_list (take (Suc i) (map snd (pareto ties df))))
                                 / of_int (sum_list (map snd (pareto ties df))) * 100))
                     [0..<length (pareto ties df)]
               \<and> nondecreasing (cumulative_pct (pareto ties df))
               \<and> last (cumulative_pct (pareto ties df)) = Fin 100))"
proof -
  let ?p = "pareto ties df"
  have desc: "sorted_wrt (\<ge>) (map snd ?p)"
    unfolding pareto_def by (rule sort_values_desc_descending)
  have last100: "last (cumulative_pct ?p) = Fin 100" if "sum64 (map snd ?p) \<noteq> 0"
    using that by (rule cumulative_pct_last)
  have exact:
    "set ?p =
       (\<lambda>k. (k, sum_list (map downtime_min (filter (\<lambda>r. downtime_reason r = Some k) df))))
         ` {k. \<exists>r\<in>set df. downtime_reason r = Some k}
     \<and> sum_list (map snd ?p) =
         sum_list (map downtime_min (filter (\<lambda>r. downtime_reason r \<noteq> None) df))
     \<and> ((\<forall>r\<in>set df. downtime_reason r = None \<longrightarrow> downtime_min r = 0) \<longrightarrow>
           sum_list (map snd ?p) = sum_list (map downtime_min df))
     \<and> (0 < sum_list (map snd ?p) \<longrightarrow>
           cumulative_pct ?p =
             map (\<lambda>i. Fin (of_int (sum_list (take (Suc i) (map snd ?p)))
                             / of_int (sum_list (map snd ?p)) * 100))
                 [0..<length ?p]
           \<and> nondecreasing (cumulative_pct ?p)
           \<and> last (cumulative_pct ?p) = Fin 100)"
    if nonneg: "\<forall>r\<in>set df. 0 \<le> downtime_min r"
      and bound: "sum_list (map downtime_min df) < 2 ^ 63"
  proof -
    have total: "sum_list (map snd ?p) =
         sum_list (map downtime_min (filter (\<lambda>r. downtime_reason r \<noteq> None) df))"
      by (rule sum_pareto_exact [OF nonneg bound])
    have le: "sum_list (map snd ?p) \<le> sum_list (map downtime_min df)"
      unfolding total using sum_filter_le [OF nonneg] by blast
    have pb: "sum_list (map snd ?p) < 2 ^ 63" using le bound by linarith
    have pn: "\<forall>g\<in>set ?p. 0 \<le> snd g" by (rule pareto_values_nonneg [OF nonneg bound])
    have lab: "sum_list (map snd ?p) = sum_list (map downtime_min df)"
      if "\<forall>r\<in>set df. downtime_reason r = None \<longrightarrow> downtime_min r = 0"
      unfolding total using that by (rule sum_labelled)
    have cum: "cumulative_pct ?p =
             map (\<lambda>i. Fin (of_int (sum_list (take (Suc i) (map snd ?p)))
                             / of_int (sum_list (map snd ?p)) * 100))
                 [0..<length ?p]
           \<and> nondecreasing (cumulative_pct ?p)
           \<and> last (cumulative_pct ?p) = Fin 100"
      if pos: "0 < sum_list (map snd ?p)"
    proof -
      have "sum64 (map snd ?p) = sum_list (map snd ?p)"
        using pn pb by (intro sum64_exact) auto
      then have "sum64 (map snd ?p) \<noteq> 0" using pos by simp
      then show ?thesis
        using cumulative_pct_exact [OF pn pb pos] cumulative_pct_nondecreasing [OF pn pb pos]
          last100 by blast
    qed
    show ?thesis
      using set_pareto_exact [OF nonneg bound, of ties] total lab cum by blast
  qed
  show ?thesis
    using distinct_pareto_keys [of ties df] set_pareto [of ties df] desc
      cumulative_pct_eq [of ?p] last100 exact
    by blast
qed

theorem pareto_spec_witness:
  "pareto ties_in_order scenario_2 = [(''A'', 50), (''B'', 30), (''C'', 20)]
   \<and> cumulative_pct (pareto ties_in_order scenario_2) = [Fin 50, Fin 80, Fin 100]
   \<and> sum_list (map downtime_min scenario_2) = 100
   \<and> sum_list (map snd (pareto ties_in_order scenario_2)) = 100
   \<and> nondecreasing (cumulative_pct (pareto ties_in_order scenario_2))
   \<and> last (cumulative_pct (pareto ties_in_order scenario_2)) = Fin 100"
proof -
  have h1: "\<forall>r\<in>set scenario_2. 0 \<le> downtime_min r"
    by (simp add: scenario_2_def sample_row_def)
  have h2: "\<forall>r\<in>set scenario_2. downtime_reason r = None \<longrightarrow> downtime_min r = 0"
    by (simp add: scenario_2_def sample_row_def)
  have t: "sum_list (map downtime_min scenario_2) = 100"
    by (simp add: scenario_2_def sample_row_def)
  then have h3: "sum_list (map downtime_min scenario_2) < 2 ^ 63" by simp
  have p: "pareto ties_in_order scenario_2 = [(''A'', 50), (''B'', 30), (''C'', 20)]"
    by (simp add: pareto_def pareto_sums_def sort_values_desc_def groupby_def collect_groups_def
        scenario_2_def sample_row_def sum64_def wrap64_def ties_in_order_def)
  have c: "cumulative_pct [(''A'', 50), (''B'', 30), (''C'', 20)] = [Fin 50, Fin 80, Fin 100]"
    by (simp add: cumulative_pct_def cumsum_def fdiv_def fscale_def sum64_def wrap64_def)
  have s: "sum64 (map snd (pareto ties_in_order scenario_2)) \<noteq> 0"
    unfolding p by (simp add: sum64_def wrap64_def)
  have "sum_list (map snd (pareto ties_in_order scenario_2)) = sum_list (map downtime_min scenario_2)"
    and "0 < sum_list (map snd (pareto ties_in_order scenario_2)) \<longrightarrow>
           nondecreasing (cumulative_pct (pareto ties_in_order scenario_2))
           \<and> last (cumulative_pct (pareto ties_in_order scenario_2)) = Fin 100"
    using pareto_spec [of ties_in_order scenario_2] h1 h2 h3 s by blast+
  then show ?thesis using t p c by simp
qed

text \<open>
  A row without a reason and with 15 minutes of downtime, and a row with the reason
  \<open>A\<close> and 5 minutes: the sums of the groups add up to 5, the downtime of the table
  is 20.
\<close>

theorem pareto_total_counterexample:
  "pareto ties_in_order unlabelled = [(''A'', 5)]
   \<and> sum_list (map snd (pareto ties_in_order unlabelled)) = 5
   \<and> sum_list (map downtime_min unlabelled) = 20
   \<and> total_downtime (scalar_kpis unlabelled) = 20"
  by (simp add: pareto_def pareto_sums_def sort_values_desc_def groupby_def collect_groups_def
        unlabelled_def sample_row_def sum64_def wrap64_def ties_in_order_def scalar_kpis_def)

text \<open>
  C5, as the code has it. The order in which the reasons first appear plays no part in
  the ranking: the lines reach the descending sort in ascending order of their labels,
  and the ranking is the same for every reordering of the rows of the table. Which of
  several reasons with the same summed downtime comes first is left to the sort.
\<close>

theorem pareto_row_order:
  "sorted_wrt (<) (map fst (pareto_sums df))
   \<and> pareto ties df = sort_values_desc ties (pareto_sums df)
   \<and> (mset df' = mset df \<longrightarrow> pareto_sums df' = pareto_sums df \<and> pareto ties df' = pareto ties df)"
proof -
  have "sorted_wrt (<) (map fst (pareto_sums df))"
    by (simp add: pareto_sums_keys group_keys_strict)
  moreover have "pareto_sums df' = pareto_sums df \<and> pareto ties df' = pareto ties df"
    if "mset df' = mset df"
    using pareto_sums_perm [OF that] by (simp add: pareto_def)
  ultimately show ?thesis by (simp add: pareto_def)
qed

theorem pareto_row_order_witness:
  "mset (rev tied_reasons) = mset tied_reasons
   \<and> pareto ties_in_order (rev tied_reasons) = pareto ties_in_order tied_reasons
   \<and> pareto ties_reversed (rev tied_reasons) = pareto ties_reversed tied_reasons
   \<and> pareto_sums (rev tied_reasons) = [(''A'', 10), (''B'', 10), (''C'', 10)]"
proof -
  have m: "mset (rev tied_reasons) = mset tied_reasons" by simp
  have p: "pareto_sums tied_reasons = [(''A'', 10), (''B'', 10), (''C'', 10)]"
    by (simp add: pareto_sums_def groupby_def collect_groups_def
        tied_reasons_def sample_row_def sum64_def wrap64_def)
  show ?thesis
    using pareto_row_order [of tied_reasons ties_in_order "rev tied_reasons"]
      pareto_row_order [of tied_reasons ties_reversed "rev tied_reasons"] m p by simp
qed

text \<open>
  Three reasons with the same downtime, first appearing in the order \<open>B\<close>, \<open>A\<close>,
  \<open>C\<close>, and the same rows in the opposite order, where they first appear as \<open>C\<close>,
  \<open>A\<close>, \<open>B\<close>: the ranking is the same for both tables, \<open>A\<close>, \<open>B\<close>, \<open>C\<close>
  when equal sums keep the order of the grouping and \<open>C\<close>, \<open>B\<close>, \<open>A\<close> when they
  come out in the opposite order.
\<close>

theorem pareto_first_appearance_counterexample:
  "map snd (pareto ties_in_order tied_reasons) = [10, 10, 10]
   \<and> unique (List.map_filter downtime_reason tied_reasons) = [''B'', ''A'', ''C'']
   \<and> map fst (pareto ties_in_order tied_reasons) = [''A'', ''B'', ''C'']
   \<and> map fst (pareto ties_reversed tied_reasons) = [''C'', ''B'', ''A'']
   \<and> unique (List.map_filter downtime_reason (rev tied_reasons)) = [''C'', ''A'', ''B'']
   \<and> map fst (pareto ties_in_order (rev tied_reasons)) = [''A'', ''B'', ''C'']
   \<and> map fst (pareto ties_reversed (rev tied_reasons)) = [''C'', ''B'', ''A'']"
  by (simp add: pareto_def pareto_sums_def sort_values_desc_def groupby_def collect_groups_def
        tied_reasons_def sample_row_def unique_def sum64_def wrap64_def
        ties_in_order_def ties_reversed_def)

text \<open>
  C6, as the code has it. For every filtered table whose downtimes are not negative and
  add up to zero, the cumulative percentage of every reason is \<^verbatim>\<open>nan\<close>, the outcome
  of dividing zero by the zero total: no other value stands in for it.
\<close>

theorem pareto_zero_total:
  assumes nonneg: "\<forall>r\<in>set df. 0 \<le> downtime_min r"
    and zero: "sum_list (map downtime_min df) = 0"
  shows "cumulative_pct (pareto ties df) = replicate (length (pareto ties df)) NaN"
proof -
  have all0: "\<forall>r\<in>set df. downtime_min r = 0"
    using nonneg zero sum_list_nonneg_eq_0_iff [of "map downtime_min df"] by auto
  have "sum_list (map downtime_min (filter P df)) = 0" for P
    using all0 by (induction df) auto
  then have "\<forall>g\<in>set (pareto ties df). snd g = 0"
    by (auto simp: set_pareto sum64_wrap wrap64_0)
  then show ?thesis by (rule cumulative_pct_zero)
qed

theorem pareto_zero_total_witness:
  "sum_list (map downtime_min idle_table) = 0
   \<and> length (pareto ties_in_order idle_table) = 2
   \<and> cumulative_pct (pareto ties_in_order idle_table) = replicate 2 NaN"
proof -
  have h1: "\<forall>r\<in>set idle_table. 0 \<le> downtime_min r"
    by (simp add: idle_table_def sample_row_def)
  have h2: "sum_list (map downtime_min idle_table) = 0"
    by (simp add: idle_table_def sample_row_def)
  have l: "length (pareto ties_in_order idle_table) = 2"
    by (simp add: pareto_def length_sort_values_desc pareto_sums_def groupby_def
        collect_groups_def idle_table_def sample_row_def)
  show ?thesis
    using pareto_zero_total [OF h1 h2, of ties_in_order] h2 l by simp
qed

text \<open>
  Two reasons without any downtime: both cumulative percentages are \<^verbatim>\<open>nan\<close>.
\<close>

theorem pareto_zero_total_counterexample:
  "sum_list (map downtime_min idle_table) = 0
   \<and> map fst (pareto ties_in_order idle_table) = [''A'', ''B'']
   \<and> cumulative_pct (pareto ties_in_order idle_table) = [NaN, NaN]
   \<and> cumulative_pct (pareto ties_reversed idle_table) = [NaN, NaN]"
  by (simp add: pareto_def pareto_sums_def sort_values_desc_def groupby_def collect_groups_def
        idle_table_def sample_row_def cumulative_pct_def cumsum_def fdiv_def fscale_def
        sum64_def wrap64_def ties_in_order_def ties_reversed_def)

end
